theory Spec2Isabelle
  imports Complex_Main "HOL-Library.Sublist"
begin

section \<open>Python values, exceptions and callables\<close>

text \<open>
  The objects that travel between the dispatcher, the tools and the interfaces.
  Only the shapes the modelled code inspects are distinguished: the truth value of a
  result (\<^verbatim>\<open>if results:\<close>) and the class of a raised exception
  (\<^verbatim>\<open>except Exception\<close> does not catch \<^verbatim>\<open>KeyboardInterrupt\<close>,
  \<^verbatim>\<open>SystemExit\<close> or \<^verbatim>\<open>asyncio.CancelledError\<close>, which derive
  from \<^verbatim>\<open>BaseException\<close> only).
\<close>

datatype py_value =
    PyNone
  | PyBool bool
  | PyInt int
  | PyStr string
  | PyList "py_value list"
  | PyDict "(string \<times> py_value) list"

fun truthy :: "py_value \<Rightarrow> bool" where
  "truthy PyNone = False"
| "truthy (PyBool b) = b"
| "truthy (PyInt i) = (i \<noteq> 0)"
| "truthy (PyStr s) = (s \<noteq> [])"
| "truthy (PyList xs) = (xs \<noteq> [])"
| "truthy (PyDict kvs) = (kvs \<noteq> [])"

datatype py_exception =
    ValueError string
  | KeyError string
  | TypeError string
  | RuntimeError string
  | OtherException string
  | BaseExceptionOnly string

fun is_Exception :: "py_exception \<Rightarrow> bool" where
  "is_Exception (BaseExceptionOnly m) = False"
| "is_Exception e = True"

text \<open>
  \<^verbatim>\<open>repr\<close> of a string, on code points below 256: single quotes, or double
  quotes when the string has a single quote and no double quote; the backslash, the
  chosen quote, newline, carriage return and tab are escaped, and every other
  character that is not printable is written \<^verbatim>\<open>\xNN\<close>.
\<close>

definition isprintable :: "char \<Rightarrow> bool" where
  "isprintable c =
     (let n = (of_char c :: nat) in \<not> (n < 32 \<or> (127 \<le> n \<and> n \<le> 160) \<or> n = 173))"

definition hex_digit :: "nat \<Rightarrow> char" where
  "hex_digit n = ''0123456789abcdef'' ! n"

definition repr_char :: "char \<Rightarrow> char \<Rightarrow> string" where
  "repr_char q c =
     (if c = CHR 0x5C then [CHR 0x5C, CHR 0x5C]
      else if c = q then [CHR 0x5C, q]
      else if c = CHR 0x0A then [CHR 0x5C, CHR ''n'']
      else if c = CHR 0x0D then [CHR 0x5C, CHR ''r'']
      else if c = CHR 0x09 then [CHR 0x5C, CHR ''t'']
      else if isprintable c then [c]
      else [CHR 0x5C, CHR ''x'', hex_digit ((of_char c :: nat) div 16),
            hex_digit ((of_char c :: nat) mod 16)])"

definition py_repr :: "string \<Rightarrow> string" where
  "py_repr s =
     (let q = (if CHR 0x27 \<in> set s \<and> CHR 0x22 \<notin> set s then CHR 0x22 else CHR 0x27)
      in q # concat (map (repr_char q) s) @ [q])"

text \<open>
  \<^verbatim>\<open>str(e)\<close> for an exception built from one string: the string itself, except
  for \<^verbatim>\<open>KeyError\<close>, which gives the \<^verbatim>\<open>repr\<close> of its key.
\<close>

fun exception_str :: "py_exception \<Rightarrow> string" where
  "exception_str (ValueError m) = m"
| "exception_str (KeyError m) = py_repr m"
| "exception_str (TypeError m) = m"
| "exception_str (RuntimeError m) = m"
| "exception_str (OtherException m) = m"
| "exception_str (BaseExceptionOnly m) = m"

datatype log_level = INFO | WARNING | ERROR

type_synonym log_record = "log_level \<times> string"

text \<open>
  A tool implementation receives the positional arguments and the keyword arguments,
  acts on the state \<open>'w\<close> it closes over (vector store, conversation history, ...)
  and returns a value or raises. \<open>AsyncDef\<close> is a callable for which
  \<^verbatim>\<open>inspect.iscoroutinefunction\<close> holds, \<open>Def\<close> any other callable.
  \<open>conversation_history\<close> is the attribute of that name on the callable object,
  when it has one.
\<close>

type_synonym 'w tool_impl =
  "py_value list \<Rightarrow> (string \<times> py_value) list \<Rightarrow> 'w \<Rightarrow> (py_exception + py_value) \<times> 'w"

datatype 'w py_callable =
    Def "'w tool_impl" "py_value option"
  | AsyncDef "'w tool_impl" "py_value option"

fun iscoroutinefunction :: "'w py_callable \<Rightarrow> bool" where
  "iscoroutinefunction (Def f h) = False"
| "iscoroutinefunction (AsyncDef f h) = True"

fun impl :: "'w py_callable \<Rightarrow> 'w tool_impl" where
  "impl (Def f h) = f"
| "impl (AsyncDef f h) = f"

fun conversation_history_attr :: "'w py_callable \<Rightarrow> py_value option" where
  "conversation_history_attr (Def f h) = h"
| "conversation_history_attr (AsyncDef f h) = h"


section \<open>core/mcp\_server.py: the dispatcher\<close>

text \<open>
  \<open>tools\<close> is the dictionary of the class. \<open>logged\<close> is what the
  \<^verbatim>\<open>logging\<close> module has received and \<open>world\<close> the state the registered
  tools act on; both are process state outside the object, threaded through here.
  The thread pool only decides where a synchronous tool runs; the call is awaited to
  completion either way.
\<close>

record 'w MCPServer =
  tools :: "string \<rightharpoonup> 'w py_callable"
  logged :: "log_record list"
  world :: 'w

definition register_tool :: "'w MCPServer \<Rightarrow> string \<Rightarrow> 'w py_callable \<Rightarrow> 'w MCPServer" where
  "register_tool self name tool =
     self\<lparr>tools := (tools self)(name \<mapsto> tool),
          logged := logged self @ [(INFO, ''Registered tool: '' @ name)]\<rparr>"

definition execute_tool ::
  "'w MCPServer \<Rightarrow> string \<Rightarrow> py_value list \<Rightarrow> (string \<times> py_value) list
     \<Rightarrow> (py_exception + py_value) \<times> 'w MCPServer" where
  "execute_tool self tool_name args kwargs =
     (case tools self tool_name of
        None \<Rightarrow> (Inl (ValueError (''Tool '' @ tool_name @ '' not registered'')), self)
      | Some tool \<Rightarrow>
          (let (r, w) = (if iscoroutinefunction tool
                         then impl tool args kwargs (world self)
                         else impl tool args [] (world self));
               self1 = self\<lparr>world := w\<rparr>
           in case r of
                Inr v \<Rightarrow> (Inr v, self1)
              | Inl e \<Rightarrow>
                  if is_Exception e
                  then (Inl e, self1\<lparr>logged := logged self1 @
                          [(ERROR, ''Error executing tool '' @ tool_name @ '': '' @ exception_str e)]\<rparr>)
                  else (Inl e, self1)))"


section \<open>interfaces/cli.py: the query pipeline\<close>

record 'w CLIInterface =
  mcp :: "'w MCPServer"
  conversation_history :: "py_value option"

definition apology :: string where
  "apology = ''I apologize, but I'' @ [CHR 0x27] @ ''m having trouble processing your request. '' @
             ''Please try again.''"

text \<open>
  The handler of \<^verbatim>\<open>_process_query\<close>: an \<^verbatim>\<open>Exception\<close> is logged and
  turned into the apology, anything else propagates.
\<close>

definition handle_query_error ::
  "'w CLIInterface \<Rightarrow> py_exception
     \<Rightarrow> (py_exception + py_value \<times> py_value \<times> bool) \<times> 'w CLIInterface" where
  "handle_query_error self e =
     (if is_Exception e
      then (Inr (PyStr apology, PyList [], False),
            self\<lparr>mcp := (mcp self)\<lparr>logged := logged (mcp self) @
                     [(ERROR, ''Error processing query: '' @ exception_str e)]\<rparr>\<rparr>)
      else (Inl e, self))"

definition process_query ::
  "'w CLIInterface \<Rightarrow> string
     \<Rightarrow> (py_exception + py_value \<times> py_value \<times> bool) \<times> 'w CLIInterface" where
  "process_query self query =
     (case execute_tool (mcp self) ''query_vector_store'' [PyStr query] [] of
        (Inl e, m1) \<Rightarrow> handle_query_error (self\<lparr>mcp := m1\<rparr>) e
      | (Inr results, m1) \<Rightarrow>
          (case (if truthy results
                 then execute_tool m1 ''format_response'' [PyStr query, results] []
                 else (Inr PyNone, m1)) of
             (Inl e, m2) \<Rightarrow> handle_query_error (self\<lparr>mcp := m2\<rparr>) e
           | (Inr context, m2) \<Rightarrow>
               (case execute_tool m2 ''generate_response'' [PyStr query, context] [] of
                  (Inl e, m3) \<Rightarrow> handle_query_error (self\<lparr>mcp := m3\<rparr>) e
                | (Inr response, m3) \<Rightarrow>
                    (case tools m3 ''generate_response'' of
                       None \<Rightarrow>
                         handle_query_error (self\<lparr>mcp := m3\<rparr>)
                           (KeyError ''generate_response'')
                     | Some t \<Rightarrow>
                         (case conversation_history_attr t of
                            Some h \<Rightarrow>
                              (Inr (response, results, False),
                               self\<lparr>mcp := m3, conversation_history := Some h\<rparr>)
                          | None \<Rightarrow>
                              (Inr (response, results, False), self\<lparr>mcp := m3\<rparr>))))))"


section \<open>core/tool\_registry.py: the capability registry\<close>

datatype ToolCategory = DOCUMENT | SEARCH | LLM | UTILITY | OTHER

definition all_categories :: "ToolCategory list" where
  "all_categories = [DOCUMENT, SEARCH, LLM, UTILITY, OTHER]"

record ToolMetadata =
  name :: string
  description :: string
  category :: ToolCategory
  async_support :: bool
  version :: string

record 'w Tool =
  func :: "'w py_callable"
  metadata :: ToolMetadata
  is_async :: bool

text \<open>
  The two dictionaries of the class, \<^verbatim>\<open>_tools\<close> and \<^verbatim>\<open>_categories\<close>.
  The outer dictionary of \<^verbatim>\<open>_categories\<close> has every category as a key from
  construction on and never loses one, so it is a total function here. The
  \<^verbatim>\<open>logging.info\<close> lines of the class are left out.
\<close>

record 'w ToolRegistry =
  reg_tools :: "string \<rightharpoonup> 'w Tool"
  reg_categories :: "ToolCategory \<Rightarrow> (string \<rightharpoonup> 'w Tool)"

definition ToolRegistry_init :: "'w ToolRegistry" where
  "ToolRegistry_init = \<lparr>reg_tools = Map.empty, reg_categories = (\<lambda>c. Map.empty)\<rparr>"

text \<open>\<^verbatim>\<open>register(name, description, category, version)(func)\<close>: the decorator applied.\<close>

definition register ::
  "'w ToolRegistry \<Rightarrow> string \<Rightarrow> string \<Rightarrow> ToolCategory \<Rightarrow> string \<Rightarrow> 'w py_callable
     \<Rightarrow> 'w ToolRegistry" where
  "register self nm descr cat ver f =
     (let md = \<lparr>name = nm, description = descr, category = cat,
                async_support = iscoroutinefunction f, version = ver\<rparr>;
          tool = \<lparr>func = f, metadata = md, is_async = iscoroutinefunction f\<rparr>
      in self\<lparr>reg_tools := (reg_tools self)(nm \<mapsto> tool),
              reg_categories := (reg_categories self)(cat := (reg_categories self cat)(nm \<mapsto> tool))\<rparr>)"

definition get_tool :: "'w ToolRegistry \<Rightarrow> string \<Rightarrow> 'w Tool option" where
  "get_tool self nm = reg_tools self nm"

definition list_tools :: "'w ToolRegistry \<Rightarrow> ToolCategory option \<Rightarrow> (string \<rightharpoonup> ToolMetadata)" where
  "list_tools self cat =
     (case cat of
        Some c \<Rightarrow> (\<lambda>nm. map_option metadata (reg_categories self c nm))
      | None \<Rightarrow> (\<lambda>nm. map_option metadata (reg_tools self nm)))"

text \<open>
  \<^verbatim>\<open>del d[k]\<close> raises \<^verbatim>\<open>KeyError\<close> on a missing key; the first deletion has
  happened by then.
\<close>

definition remove_tool :: "'w ToolRegistry \<Rightarrow> string \<Rightarrow> (py_exception + bool) \<times> 'w ToolRegistry" where
  "remove_tool self nm =
     (case reg_tools self nm of
        Some tool \<Rightarrow>
          (let self1 = self\<lparr>reg_tools := (reg_tools self)(nm := None)\<rparr>;
               c = category (metadata tool)
           in case reg_categories self1 c nm of
                None \<Rightarrow> (Inl (KeyError nm), self1)
              | Some t \<Rightarrow>
                  (Inr True,
                   self1\<lparr>reg_categories := (reg_categories self1)(c := (reg_categories self1 c)(nm := None))\<rparr>))
      | None \<Rightarrow> (Inr False, self))"

definition clear :: "'w ToolRegistry \<Rightarrow> 'w ToolRegistry" where
  "clear self = self\<lparr>reg_tools := Map.empty, reg_categories := (\<lambda>c. Map.empty)\<rparr>"

text \<open>In how many per-category listings a name occurs.\<close>

definition category_listings_with :: "'w ToolRegistry \<Rightarrow> string \<Rightarrow> nat" where
  "category_listings_with self nm =
     length (filter (\<lambda>c. list_tools self (Some c) nm \<noteq> None) all_categories)"


section \<open>interfaces/api.py: the rate limiter\<close>

text \<open>
  \<^verbatim>\<open>time.time()\<close> is read once per check; its value is the argument \<open>now\<close>.
  Timestamps are real numbers.
\<close>

record RateLimiter =
  requests :: "string \<rightharpoonup> real list"
  rate_limit :: int
  window :: real

definition RateLimiter_init :: "int \<Rightarrow> RateLimiter" where
  "RateLimiter_init requests_per_minute =
     \<lparr>requests = Map.empty, rate_limit = requests_per_minute, window = 60\<rparr>"

definition check :: "RateLimiter \<Rightarrow> real \<Rightarrow> string \<Rightarrow> bool \<times> RateLimiter" where
  "check self now client_id =
     (let client_requests = (case requests self client_id of None \<Rightarrow> [] | Some ts \<Rightarrow> ts);
          client_requests = filter (\<lambda>t. now - t < window self) client_requests
      in if int (length client_requests) \<ge> rate_limit self
         then (False, self)
         else (True, self\<lparr>requests := (requests self)(client_id \<mapsto> client_requests @ [now])\<rparr>))"


section \<open>Python string operations\<close>

text \<open>
  Characters are code points below 256. \<open>isspace\<close> is \<^verbatim>\<open>str.isspace\<close> on
  them, \<open>lower\<close> is \<^verbatim>\<open>str.lower\<close>, \<open>strip\<close> is \<^verbatim>\<open>str.strip()\<close>,
  \<open>split_on\<close> is \<^verbatim>\<open>str.split(sep)\<close> for a one-character separator,
  \<open>split_ws\<close> is \<^verbatim>\<open>str.split()\<close>, \<open>contains s sub\<close> is
  \<^verbatim>\<open>sub in s\<close>, \<open>join\<close> is \<^verbatim>\<open>sep.join\<close>, \<open>rfind\<close> is
  \<^verbatim>\<open>str.rfind\<close> for a one-character needle and \<open>py_slice s a b\<close> is
  \<^verbatim>\<open>s[a:b]\<close>, where a negative index counts from the end.
\<close>

definition isspace :: "char \<Rightarrow> bool" where
  "isspace c = (c \<in> set [CHR 0x09, CHR 0x0A, CHR 0x0B, CHR 0x0C, CHR 0x0D,
                           CHR 0x1C, CHR 0x1D, CHR 0x1E, CHR 0x1F, CHR 0x20,
                           CHR 0x85, CHR 0xA0])"

definition lower_char :: "char \<Rightarrow> char" where
  "lower_char c =
     (let n = (of_char c :: nat)
      in if (65 \<le> n \<and> n \<le> 90) \<or> (192 \<le> n \<and> n \<le> 222 \<and> n \<noteq> 215)
         then char_of (n + 32) else c)"

definition lower :: "string \<Rightarrow> string" where
  "lower s = map lower_char s"

definition strip :: "string \<Rightarrow> string" where
  "strip s = rev (dropWhile isspace (rev (dropWhile isspace s)))"

definition replace_char :: "char \<Rightarrow> char \<Rightarrow> string \<Rightarrow> string" where
  "replace_char old new s = map (\<lambda>c. if c = old then new else c) s"

fun split_on :: "char \<Rightarrow> string \<Rightarrow> string list" where
  "split_on sep [] = [[]]"
| "split_on sep (c # cs) =
     (if c = sep then [] # split_on sep cs
      else (case split_on sep cs of
              w # ws \<Rightarrow> (c # w) # ws
            | [] \<Rightarrow> [[c]]))"

fun split_ws_from :: "string \<Rightarrow> string \<Rightarrow> string list" where
  "split_ws_from w [] = (if w = [] then [] else [rev w])"
| "split_ws_from w (c # cs) =
     (if isspace c
      then (if w = [] then split_ws_from [] cs else rev w # split_ws_from [] cs)
      else split_ws_from (c # w) cs)"

definition split_ws :: "string \<Rightarrow> string list" where
  "split_ws s = split_ws_from [] s"

fun startswith :: "string \<Rightarrow> string \<Rightarrow> bool" where
  "startswith s [] = True"
| "startswith [] (p # ps) = False"
| "startswith (c # cs) (p # ps) = (c = p \<and> startswith cs ps)"

fun contains :: "string \<Rightarrow> string \<Rightarrow> bool" where
  "contains [] sub = (sub = [])"
| "contains (c # cs) sub = (startswith (c # cs) sub \<or> contains cs sub)"

fun join :: "string \<Rightarrow> string list \<Rightarrow> string" where
  "join sep [] = []"
| "join sep [x] = x"
| "join sep (x # y # ys) = x @ sep @ join sep (y # ys)"

definition rfind :: "string \<Rightarrow> char \<Rightarrow> int" where
  "rfind s c =
     (if c \<in> set s
      then int (length s) - 1 - int (length (takeWhile (\<lambda>x. x \<noteq> c) (rev s)))
      else - 1)"

definition py_slice :: "string \<Rightarrow> int \<Rightarrow> int \<Rightarrow> string" where
  "py_slice s a b =
     (let n = int (length s);
          lo = (if a < 0 then max (a + n) 0 else min a n);
          hi = (if b < 0 then max (b + n) 0 else min b n)
      in take (nat (hi - lo)) (drop (nat lo) s))"


section \<open>tools/response\_tools.py: extracting the relevant section\<close>

text \<open>
  The loop of \<^verbatim>\<open>_extract_section\<close> over \<^verbatim>\<open>enumerate(sentences)\<close>: the index
  of the first sentence for which the test holds, and 0 when the loop ends without a
  \<^verbatim>\<open>break\<close>.
\<close>

fun first_match :: "(string \<Rightarrow> bool) \<Rightarrow> nat \<Rightarrow> string list \<Rightarrow> nat" where
  "first_match P idx [] = 0"
| "first_match P idx (sentence # rest) =
     (if P sentence then idx else first_match P (Suc idx) rest)"

definition extract_section :: "string \<Rightarrow> string \<Rightarrow> string" where
  "extract_section text query =
     (let sentences = split_on CHR ''.'' text;
          start_idx = first_match
            (\<lambda>sentence. list_ex (\<lambda>keyword. contains (lower sentence) keyword)
                           (split_ws (lower query)))
            0 sentences;
          window_size = 5;
          context_window = take window_size (drop start_idx sentences)
      in join ''. '' (map strip (filter (\<lambda>s. strip s \<noteq> []) context_window)) @ ''.'')"


section \<open>tools/document\_processing.py: chunking\<close>

record PDFProcessor =
  chunk_size :: int
  chunk_overlap :: int

definition PDFProcessor_init :: PDFProcessor where
  "PDFProcessor_init = \<lparr>chunk_size = 1000, chunk_overlap = 200\<rparr>"

text \<open>
  The \<^verbatim>\<open>while\<close> loop of \<^verbatim>\<open>_chunk_text\<close> on the normalised text, with the
  loop variables \<open>start\<close> and \<open>chunks\<close> as arguments, after
  \<open>sz\<close> and \<open>ov\<close> for \<^verbatim>\<open>self.chunk_size\<close> and
  \<^verbatim>\<open>self.chunk_overlap\<close>. \<open>None\<close> is a loop that
  never ends. \<open>start\<close> is a Python integer and may become negative.
\<close>

partial_function (option) chunk_loop ::
  "int \<Rightarrow> int \<Rightarrow> string \<Rightarrow> int \<Rightarrow> string list \<Rightarrow> string list option" where
  "chunk_loop sz ov text start chunks =
     (if start < int (length text)
      then (let end0 = start + sz;
                chunk0 = py_slice text start end0;
                last_period = rfind chunk0 CHR ''.'';
                cut = (end0 < int (length text) \<and> last_period \<noteq> - 1);
                chunk = (if cut then py_slice chunk0 0 (last_period + 1) else chunk0);
                end1 = (if cut then start + last_period + 1 else end0)
            in chunk_loop sz ov text (end1 - ov) (chunks @ [strip chunk]))
      else Some chunks)"

declare chunk_loop.simps [code]

definition normalized :: "string \<Rightarrow> string" where
  "normalized text = strip (replace_char CHR 0x0A CHR '' '' text)"

definition chunk_text :: "PDFProcessor \<Rightarrow> string \<Rightarrow> string list option" where
  "chunk_text self text =
     chunk_loop (chunk_size self) (chunk_overlap self) (normalized text) 0 []"


section \<open>Windows of the chunking loop\<close>

text \<open>
  The end of the window that one iteration of the loop of \<^verbatim>\<open>_chunk_text\<close>
  takes from \<open>start\<close>: the value of \<^verbatim>\<open>end\<close> when the chunk is appended.
\<close>

definition window_end :: "int \<Rightarrow> string \<Rightarrow> int \<Rightarrow> int" where
  "window_end sz t start =
     (let end0 = start + sz;
          last_period = rfind (py_slice t start end0) CHR ''.''
      in if end0 < int (length t) \<and> last_period \<noteq> - 1 then start + last_period + 1 else end0)"

text \<open>
  Every window that is cut back to a sentence terminator keeps more than \<open>ov\<close>
  characters, wherever in the text it starts: the next start is then beyond the
  current one.
\<close>

definition cuts_advance :: "int \<Rightarrow> int \<Rightarrow> string \<Rightarrow> bool" where
  "cuts_advance sz ov t =
     (\<forall>start \<in> set [0..<length t].
        int start + sz < int (length t) \<longrightarrow>
        (let last_period = rfind (py_slice t (int start) (int start + sz)) CHR ''.''
         in last_period \<noteq> - 1 \<longrightarrow> ov \<le> last_period))"

text \<open>
  Concatenating with the overlaps removed: the first window whole, every later one
  without its first \<open>ov\<close> characters.
\<close>

fun remove_overlaps :: "nat \<Rightarrow> string list \<Rightarrow> string" where
  "remove_overlaps ov [] = []"
| "remove_overlaps ov (w # ws) = w @ concat (map (drop ov) ws)"

text \<open>
  Consecutive windows overlap: the first \<open>ov\<close> characters of each window after the
  first are the last characters of the window before it.
\<close>

fun overlap_chain :: "nat \<Rightarrow> string list \<Rightarrow> bool" where
  "overlap_chain ov (a # b # rest) = (suffix (take ov b) a \<and> overlap_chain ov (b # rest))"
| "overlap_chain ov ws = True"

text \<open>
  The loop invariant: the windows \<open>ws\<close> taken so far, when the loop is about to
  continue from \<open>start\<close>.
\<close>

definition covers :: "nat \<Rightarrow> string \<Rightarrow> nat \<Rightarrow> string list \<Rightarrow> bool" where
  "covers ov t start ws \<longleftrightarrow>
     overlap_chain ov ws \<and>
     (\<forall>w \<in> set ws. sublist w t \<and> (ov < length w \<or> suffix w t)) \<and>
     (if ws = [] then start = 0
      else remove_overlaps ov ws = take (start + ov) t \<and>
           suffix (take ov (drop start t)) (last ws))"


section \<open>Example inputs\<close>

text \<open>
  A server whose vector store raises a \<^verbatim>\<open>RuntimeError\<close>, one whose vector store
  raises \<^verbatim>\<open>asyncio.CancelledError\<close>, and a server with two tools that count
  their keyword arguments.
\<close>

definition failing_store :: "unit py_callable" where
  "failing_store = AsyncDef (\<lambda>args kwargs w. (Inl (RuntimeError ''store offline''), w)) None"

definition cancelled_store :: "unit py_callable" where
  "cancelled_store = AsyncDef (\<lambda>args kwargs w. (Inl (BaseExceptionOnly ''CancelledError''), w)) None"

definition cancelled_cli :: "unit CLIInterface" where
  "cancelled_cli =
     \<lparr>mcp = \<lparr>tools = [''query_vector_store'' \<mapsto> cancelled_store], logged = [], world = ()\<rparr>,
      conversation_history = None\<rparr>"

definition failing_cli :: "unit CLIInterface" where
  "failing_cli =
     \<lparr>mcp = \<lparr>tools = [''query_vector_store'' \<mapsto> failing_store], logged = [], world = ()\<rparr>,
      conversation_history = None\<rparr>"

definition count_kwargs :: "unit tool_impl" where
  "count_kwargs args kwargs w = (Inr (PyInt (int (length kwargs))), w)"

definition echo_server :: "unit MCPServer" where
  "echo_server =
     \<lparr>tools = [''sync_echo'' \<mapsto> Def count_kwargs None, ''async_echo'' \<mapsto> AsyncDef count_kwargs None],
      logged = [], world = ()\<rparr>"

text \<open>The query and the candidate text of the parking example.\<close>

definition parking_text :: string where
  "parking_text =
     ''Visitor parking is open from 6am to 10pm daily. Overnight parking requires a permit.''"

definition parking_query :: string where
  "parking_query = ''What are visitor parking hours?''"

text \<open>
  A text of 1001 characters whose only sentence terminator is at index 199, for the
  default configuration.
\<close>

definition long_text :: string where
  "long_text = replicate 199 CHR ''a'' @ ''.'' @ replicate 801 CHR ''b''"


section \<open>Properties of the dispatcher and the pipeline\<close>

lemma apology_nonempty: "apology \<noteq> []"
  by (simp add: apology_def)

lemma exception_str_KeyError:
  "exception_str (KeyError ''generate_response'') = [CHR 0x27] @ ''generate_response'' @ [CHR 0x27]"
  by code_simp

text \<open>
  An exception that derives from \<^verbatim>\<open>BaseException\<close> only is not caught by
  \<^verbatim>\<open>except Exception\<close>: when the vector store is cancelled, the
  \<^verbatim>\<open>CancelledError\<close> reaches the caller of \<^verbatim>\<open>_process_query\<close>.
\<close>

theorem process_query_cancelled_propagates:
  "fst (execute_tool (mcp cancelled_cli) ''query_vector_store'' [PyStr ''hours?''] [])
     = Inl (BaseExceptionOnly ''CancelledError'')
   \<and> fst (process_query cancelled_cli ''hours?'') = Inl (BaseExceptionOnly ''CancelledError'')"
  by (simp add: process_query_def handle_query_error_def execute_tool_def cancelled_cli_def
      cancelled_store_def)

text \<open>
  C1, as the code has it. When the vector-query capability raises an exception that
  derives from \<^verbatim>\<open>Exception\<close>, \<^verbatim>\<open>_process_query\<close> returns normally: the
  response is the non-empty apology string, the match list is empty and the web flag
  is false; nothing is propagated to the caller.
\<close>

theorem process_query_vector_store_raises:
  assumes "fst (execute_tool (mcp self) ''query_vector_store'' [PyStr query] []) = Inl e"
    and "is_Exception e"
  shows "fst (process_query self query) = Inr (PyStr apology, PyList [], False) \<and> apology \<noteq> []"
proof -
  obtain m1 where "execute_tool (mcp self) ''query_vector_store'' [PyStr query] [] = (Inl e, m1)"
    using assms(1) by (cases "execute_tool (mcp self) ''query_vector_store'' [PyStr query] []") auto
  then have "process_query self query = handle_query_error (self\<lparr>mcp := m1\<rparr>) e"
    by (simp add: process_query_def)
  with assms(2) show ?thesis
    by (simp add: handle_query_error_def apology_nonempty)
qed

theorem process_query_vector_store_raises_witness:
  "fst (execute_tool (mcp failing_cli) ''query_vector_store'' [PyStr ''hours?''] [])
     = Inl (RuntimeError ''store offline'')
   \<and> is_Exception (RuntimeError ''store offline'')
   \<and> fst (process_query failing_cli ''hours?'') = Inr (PyStr apology, PyList [], False)
   \<and> apology \<noteq> []"
proof -
  have h: "fst (execute_tool (mcp failing_cli) ''query_vector_store'' [PyStr ''hours?''] [])
             = Inl (RuntimeError ''store offline'')"
    by (simp add: execute_tool_def failing_cli_def failing_store_def)
  have e: "is_Exception (RuntimeError ''store offline'')" by simp
  from process_query_vector_store_raises [OF h e] h e show ?thesis by simp
qed

text \<open>
  C2. Invoking a name that is not registered fails with the not-registered
  \<^verbatim>\<open>ValueError\<close> and leaves the whole state as it was: the tool dictionary, the
  log and the state the tools act on are unchanged, so no implementation has run.
\<close>

theorem execute_tool_unregistered:
  assumes "tools self tool_name = None"
  shows "execute_tool self tool_name args kwargs
           = (Inl (ValueError (''Tool '' @ tool_name @ '' not registered'')), self)"
  using assms by (simp add: execute_tool_def)

theorem execute_tool_unregistered_witness:
  "tools (mcp failing_cli) ''nonexistent_tool'' = None
   \<and> execute_tool (mcp failing_cli) ''nonexistent_tool'' [PyInt 1] [(''k'', PyInt 2)]
       = (Inl (ValueError ''Tool nonexistent_tool not registered''), mcp failing_cli)"
proof -
  have h: "tools (mcp failing_cli) ''nonexistent_tool'' = None"
    by (simp add: failing_cli_def)
  from execute_tool_unregistered [OF h, of "[PyInt 1]" "[(''k'', PyInt 2)]"] h
  show ?thesis by simp
qed

text \<open>
  C10. A synchronous tool is called with the positional arguments only: whatever
  keyword arguments \<^verbatim>\<open>execute_tool\<close> was given, the implementation sees none.
  A coroutine tool is called with both.
\<close>

theorem execute_tool_forwarding:
  assumes "tools self tool_name = Some tool"
  shows "map_prod id world (execute_tool self tool_name args kwargs)
           = (if iscoroutinefunction tool
              then impl tool args kwargs (world self)
              else impl tool args [] (world self))"
  using assms
  by (auto simp: execute_tool_def Let_def split: prod.splits sum.splits)

theorem execute_tool_forwarding_witness:
  "tools echo_server ''sync_echo'' = Some (Def count_kwargs None)
   \<and> map_prod id world (execute_tool echo_server ''sync_echo'' [PyInt 7] [(''k'', PyInt 2)])
       = (Inr (PyInt 0), ())
   \<and> tools echo_server ''async_echo'' = Some (AsyncDef count_kwargs None)
   \<and> map_prod id world (execute_tool echo_server ''async_echo'' [PyInt 7] [(''k'', PyInt 2)])
       = (Inr (PyInt 1), ())"
proof -
  have s: "tools echo_server ''sync_echo'' = Some (Def count_kwargs None)"
    by (simp add: echo_server_def)
  have a: "tools echo_server ''async_echo'' = Some (AsyncDef count_kwargs None)"
    by (simp add: echo_server_def)
  from execute_tool_forwarding [OF s, of "[PyInt 7]" "[(''k'', PyInt 2)]"]
       execute_tool_forwarding [OF a, of "[PyInt 7]" "[(''k'', PyInt 2)]"] s a
  show ?thesis by (simp add: count_kwargs_def)
qed

section \<open>Properties of the registry\<close>

text \<open>
  C9. Registering the name \<^verbatim>\<open>x\<close> under \<^verbatim>\<open>search\<close> and then again under
  \<^verbatim>\<open>llm\<close> leaves it once in the all-tools listing, but in two per-category
  listings: the second registration does not delete the entry of the first category.
  Removing the name afterwards deletes only the entry of the current category, so the
  listing of \<^verbatim>\<open>search\<close> keeps a name that \<^verbatim>\<open>get_tool\<close> no longer knows.
\<close>

theorem register_other_category_keeps_stale_entry:
  fixes f g :: "'w py_callable"
  defines "r \<equiv> register (register ToolRegistry_init ''x'' ''first'' SEARCH ''1.0.0'' f)
                   ''x'' ''second'' LLM ''1.0.0'' g"
  shows "dom (list_tools r None) = {''x''}
       \<and> map_option description (list_tools r (Some SEARCH) ''x'') = Some ''first''
       \<and> map_option description (list_tools r (Some LLM) ''x'') = Some ''second''
       \<and> category_listings_with r ''x'' = 2
       \<and> fst (remove_tool r ''x'') = Inr True
       \<and> get_tool (snd (remove_tool r ''x'')) ''x'' = None
       \<and> category_listings_with (snd (remove_tool r ''x'')) ''x'' = 1"
  unfolding r_def
  by (auto simp: register_def ToolRegistry_init_def list_tools_def category_listings_with_def
      all_categories_def remove_tool_def get_tool_def Let_def dom_def)


section \<open>Properties of the rate limiter\<close>

text \<open>
  C7. With limit 2 and a window of 60 seconds, for an identity with no recorded
  requests: three checks at times \<open>t1 \<le> t2 \<le> t3\<close> less than a second apart admit
  the first two and deny the third, and a check at a time \<open>t4\<close> at least 60 seconds
  after both admitted timestamps is admitted again.
\<close>

theorem check_limit_two:
  assumes "rate_limit rl = 2" and "window rl = 60" and "requests rl c = None"
    and "t1 \<le> t2" and "t2 \<le> t3" and "t3 - t1 < 1"
    and "60 \<le> t4 - t2"
  shows "fst (check rl t1 c)
       \<and> fst (check (snd (check rl t1 c)) t2 c)
       \<and> \<not> fst (check (snd (check (snd (check rl t1 c)) t2 c)) t3 c)
       \<and> fst (check (snd (check (snd (check (snd (check rl t1 c)) t2 c)) t3 c)) t4 c)"
proof -
  define s1 where "s1 = snd (check rl t1 c)"
  define s2 where "s2 = snd (check s1 t2 c)"
  define s3 where "s3 = snd (check s2 t3 c)"
  have c1: "check rl t1 c = (True, rl\<lparr>requests := (requests rl)(c \<mapsto> [t1])\<rparr>)"
    using assms(1,3) by (simp add: check_def)
  then have s1: "s1 = rl\<lparr>requests := (requests rl)(c \<mapsto> [t1])\<rparr>"
    by (simp add: s1_def)
  have c2: "check s1 t2 c = (True, s1\<lparr>requests := (requests s1)(c \<mapsto> [t1, t2])\<rparr>)"
    using assms(1,2,4,5,6) by (simp add: check_def s1)
  then have s2: "s2 = s1\<lparr>requests := (requests s1)(c \<mapsto> [t1, t2])\<rparr>"
    by (simp add: s2_def)
  have c3: "check s2 t3 c = (False, s2)"
    using assms(1,2,4,5,6) by (simp add: check_def s2 s1)
  then have s3: "s3 = s2"
    by (simp add: s3_def)
  have c4: "fst (check s3 t4 c)"
    using assms(1,2,4,7) by (simp add: check_def s3 s2 s1)
  from c1 c2 c3 c4 show ?thesis
    by (simp add: s1_def s2_def s3_def)
qed

theorem check_limit_two_witness:
  "rate_limit (RateLimiter_init 2) = 2 \<and> window (RateLimiter_init 2) = 60
   \<and> requests (RateLimiter_init 2) ''key'' = None
   \<and> fst (check (RateLimiter_init 2) 100 ''key'')
   \<and> fst (check (snd (check (RateLimiter_init 2) 100 ''key'')) 100.4 ''key'')
   \<and> \<not> fst (check (snd (check (snd (check (RateLimiter_init 2) 100 ''key'')) 100.4 ''key''))
             100.9 ''key'')
   \<and> fst (check (snd (check (snd (check (snd (check (RateLimiter_init 2) 100 ''key''))
             100.4 ''key'')) 100.9 ''key'')) 160.4 ''key'')"
proof -
  have h: "rate_limit (RateLimiter_init 2) = 2" "window (RateLimiter_init 2) = 60"
    "requests (RateLimiter_init 2) ''key'' = None"
    by (simp_all add: RateLimiter_init_def)
  have t: "(100::real) \<le> 100.4" "(100.4::real) \<le> 100.9" "(100.9::real) - 100 < 1"
    "(60::real) \<le> 160.4 - 100.4"
    by simp_all
  from check_limit_two [OF h t] h show ?thesis by simp
qed


section \<open>Properties of the section extraction\<close>

theorem extract_section_not_first_sentence:
  "extract_section parking_text parking_query
     \<noteq> ''Visitor parking is open from 6am to 10pm daily.''"
  unfolding parking_text_def parking_query_def by code_simp

text \<open>
  C8, as the code has it. The first sentence matches the query, so the window starts
  at index 0, and the window of five sentences takes all three pieces of the split:
  the result is both sentences, joined and terminated again, which is the candidate
  text itself.
\<close>

theorem extract_section_parking:
  "extract_section parking_text parking_query
     = ''Visitor parking is open from 6am to 10pm daily. Overnight parking requires a permit.''"
  unfolding parking_text_def parking_query_def by code_simp


section \<open>Properties of the chunking\<close>

subsection \<open>The string operations\<close>

lemma takeWhile_stops_early:
  assumes "x \<in> set xs" and "\<not> P x"
  shows "length (takeWhile P xs) < length xs"
  using assms by (induction xs) auto

lemma rfind_upper: "rfind s c < int (length s)"
  by (simp add: rfind_def)

lemma rfind_absent: "c \<notin> set s \<Longrightarrow> rfind s c = - 1"
  by (simp add: rfind_def)

lemma rfind_present: "c \<in> set s \<Longrightarrow> 0 \<le> rfind s c"
proof -
  assume a: "c \<in> set s"
  have "length (takeWhile (\<lambda>x. x \<noteq> c) (rev s)) < length (rev s)"
    using a by (intro takeWhile_stops_early [of c]) auto
  then show ?thesis using a by (simp add: rfind_def)
qed

lemma length_py_slice_le: "0 \<le> d \<Longrightarrow> int (length (py_slice s a (a + d))) \<le> d"
  by (auto simp: py_slice_def Let_def min_def max_def)

lemma py_slice_nonneg:
  "0 \<le> a \<Longrightarrow> a \<le> b \<Longrightarrow> py_slice s a b = take (nat (b - a)) (drop (nat a) s)"
  by (auto simp: py_slice_def Let_def min_def max_def)

lemma py_slice_all: "int (length s) \<le> b \<Longrightarrow> py_slice s 0 b = s"
  by (simp add: py_slice_def Let_def)

lemma strip_strip: "strip (strip s) = strip s"
proof -
  define x where "x = dropWhile isspace s"
  define y where "y = dropWhile isspace (rev x)"
  have s: "strip s = rev y"
    by (simp add: strip_def x_def y_def)
  have a: "dropWhile isspace (rev y) = rev y"
  proof (cases "y = []")
    case True
    then show ?thesis by simp
  next
    case False
    then have "last y = last (rev x)"
      unfolding y_def by (metis dropWhile_eq_Nil_conv dropWhile_last)
    moreover from False have "x \<noteq> []"
      by (auto simp: y_def)
    ultimately have "last y = hd x"
      by (simp add: last_rev)
    moreover from \<open>x \<noteq> []\<close> have "\<not> isspace (hd x)"
      unfolding x_def by (rule hd_dropWhile)
    ultimately have "\<not> isspace (hd (rev y))"
      using False by (simp add: hd_rev)
    with False show ?thesis
      by (cases "rev y") auto
  qed
  have b: "dropWhile isspace y = y"
    by (simp add: y_def)
  show ?thesis
    unfolding s by (simp add: strip_def a b)
qed

lemma strip_normalized: "strip (normalized s) = normalized s"
  by (simp add: normalized_def strip_strip)

subsection \<open>Leaving the loop, and never leaving it\<close>

lemma chunk_loop_exit:
  "int (length t) \<le> start \<Longrightarrow> chunk_loop sz ov t start chunks = Some chunks"
  by (subst chunk_loop.simps) simp

text \<open>
  With \<open>0 \<le> sz \<le> ov\<close> the start pointer never moves forward: a window has at most
  \<open>sz\<close> characters, so the end of the window is at most \<open>start + sz\<close> and the next
  start at most \<open>start\<close>.
\<close>

lemma chunk_loop_no_progress:
  assumes "chunk_loop sz ov t start chunks = Some y"
  shows "\<not> (0 \<le> sz \<and> sz \<le> ov \<and> start < int (length t))"
proof (rule chunk_loop.raw_induct
    [where P = "\<lambda>sz ov t start chunks y. \<not> (0 \<le> sz \<and> sz \<le> ov \<and> start < int (length t))",
     OF _ assms], goal_cases)
  case (1 loop sz ov t start chunks y)
  show ?case
  proof
    assume h: "0 \<le> sz \<and> sz \<le> ov \<and> start < int (length t)"
    define lp where "lp = rfind (py_slice t start (start + sz)) CHR ''.''"
    define cut where "cut = (start + sz < int (length t) \<and> lp \<noteq> - 1)"
    define end1 where "end1 = (if cut then start + lp + 1 else start + sz)"
    define chunk where
      "chunk = (if cut then py_slice (py_slice t start (start + sz)) 0 (lp + 1)
                else py_slice t start (start + sz))"
    have "lp < int (length (py_slice t start (start + sz)))"
      unfolding lp_def by (rule rfind_upper)
    also have "\<dots> \<le> sz"
      using h by (intro length_py_slice_le) simp
    finally have "end1 \<le> start + sz"
      by (simp add: end1_def)
    with h have lt: "end1 - ov < int (length t)"
      by simp
    from 1(2) h have step: "loop sz ov t (end1 - ov) (chunks @ [strip chunk]) = Some y"
      by (auto simp: Let_def lp_def cut_def end1_def chunk_def split: if_splits)
    from 1(1) step h lt show False
      by blast
  qed
qed

subsection \<open>Configurations with overlap at least the size\<close>

theorem chunk_text_overlap_ge_size_returns:
  "chunk_size \<lparr>chunk_size = 2, chunk_overlap = 2\<rparr> \<le> chunk_overlap \<lparr>chunk_size = 2, chunk_overlap = 2\<rparr>
   \<and> chunk_text \<lparr>chunk_size = 2, chunk_overlap = 2\<rparr> [] = Some []"
  by code_simp

text \<open>
  C5, as the code has it. Nothing checks the configuration. With
  \<open>0 \<le> chunk_size \<le> chunk_overlap\<close> the operation returns the empty list when the
  normalised text is empty, and never returns when it is not; no error is raised in
  either case.
\<close>

theorem chunk_text_overlap_ge_size:
  assumes "0 \<le> chunk_size self" and "chunk_size self \<le> chunk_overlap self"
  shows "chunk_text self s = (if normalized s = [] then Some [] else None)"
proof (cases "normalized s = []")
  case True
  then show ?thesis
    by (simp add: chunk_text_def chunk_loop_exit)
next
  case False
  then have "0 < int (length (normalized s))"
    by simp
  with assms chunk_loop_no_progress
    [of "chunk_size self" "chunk_overlap self" "normalized s" 0 "[]"]
  have "chunk_text self s = None"
    by (cases "chunk_text self s") (auto simp: chunk_text_def)
  with False show ?thesis
    by simp
qed

theorem chunk_text_overlap_ge_size_witness:
  "0 \<le> chunk_size \<lparr>chunk_size = 2, chunk_overlap = 3\<rparr>
   \<and> chunk_size \<lparr>chunk_size = 2, chunk_overlap = 3\<rparr> \<le> chunk_overlap \<lparr>chunk_size = 2, chunk_overlap = 3\<rparr>
   \<and> normalized ''abc'' \<noteq> []
   \<and> chunk_text \<lparr>chunk_size = 2, chunk_overlap = 3\<rparr> ''abc'' = None
   \<and> normalized [] = []
   \<and> chunk_text \<lparr>chunk_size = 2, chunk_overlap = 3\<rparr> [] = Some []"
proof -
  have n: "normalized ''abc'' = ''abc''" "normalized [] = []"
    by (simp_all add: normalized_def strip_def replace_char_def isspace_def)
  have h: "0 \<le> chunk_size \<lparr>chunk_size = 2, chunk_overlap = 3\<rparr>"
    "chunk_size \<lparr>chunk_size = 2, chunk_overlap = 3\<rparr> \<le> chunk_overlap \<lparr>chunk_size = 2, chunk_overlap = 3\<rparr>"
    by simp_all
  from chunk_text_overlap_ge_size [OF h, of "''abc''"] chunk_text_overlap_ge_size [OF h, of "[]"] n
  show ?thesis by simp
qed

subsection \<open>Texts shorter than the size\<close>

theorem chunk_text_short_text_two_chunks:
  "int (length (normalized ''abc'')) < chunk_size \<lparr>chunk_size = 4, chunk_overlap = 2\<rparr>
   \<and> chunk_text \<lparr>chunk_size = 4, chunk_overlap = 2\<rparr> ''abc'' = Some [''abc'', ''c'']
   \<and> int (length (normalized [])) < chunk_size \<lparr>chunk_size = 4, chunk_overlap = 2\<rparr>
   \<and> chunk_text \<lparr>chunk_size = 4, chunk_overlap = 2\<rparr> [] = Some []"
  by code_simp

text \<open>
  C6, as the code has it. A text whose normalised form is not empty and has at most
  \<open>chunk_size - chunk_overlap\<close> characters (with a non-negative overlap) gives
  exactly one chunk, the normalised text itself. The empty text gives no chunk, and a
  text longer than \<open>chunk_size - chunk_overlap\<close> gives a second chunk even when it is
  shorter than \<open>chunk_size\<close>.
\<close>

theorem chunk_text_one_chunk:
  assumes "0 \<le> chunk_overlap self" and "normalized s \<noteq> []"
    and "int (length (normalized s)) \<le> chunk_size self - chunk_overlap self"
  shows "chunk_text self s = Some [normalized s]"
proof -
  define t where "t = normalized s"
  have len: "0 < int (length t)" "int (length t) \<le> chunk_size self"
    using assms by (simp_all add: t_def)
  have "chunk_loop (chunk_size self) (chunk_overlap self) t 0 []
          = chunk_loop (chunk_size self) (chunk_overlap self) t
              (chunk_size self - chunk_overlap self) [strip t]"
    using len by (subst chunk_loop.simps) (simp add: Let_def py_slice_all)
  also have "\<dots> = Some [strip t]"
    using assms(3) by (intro chunk_loop_exit) (simp add: t_def)
  finally show ?thesis
    by (simp add: chunk_text_def t_def strip_normalized)
qed

theorem chunk_text_one_chunk_witness:
  "0 \<le> chunk_overlap \<lparr>chunk_size = 5, chunk_overlap = 2\<rparr>
   \<and> normalized ''abc'' \<noteq> []
   \<and> int (length (normalized ''abc''))
       \<le> chunk_size \<lparr>chunk_size = 5, chunk_overlap = 2\<rparr> - chunk_overlap \<lparr>chunk_size = 5, chunk_overlap = 2\<rparr>
   \<and> chunk_text \<lparr>chunk_size = 5, chunk_overlap = 2\<rparr> ''abc'' = Some [''abc'']"
proof -
  have n: "normalized ''abc'' = ''abc''"
    by (simp add: normalized_def strip_def replace_char_def isspace_def)
  have h: "0 \<le> chunk_overlap \<lparr>chunk_size = 5, chunk_overlap = 2\<rparr>"
    "normalized ''abc'' \<noteq> []"
    "int (length (normalized ''abc''))
       \<le> chunk_size \<lparr>chunk_size = 5, chunk_overlap = 2\<rparr> - chunk_overlap \<lparr>chunk_size = 5, chunk_overlap = 2\<rparr>"
    by (simp_all add: n)
  from chunk_text_one_chunk [OF h] h n show ?thesis by simp
qed

subsection \<open>One iteration\<close>

lemma chunk_loop_step:
  assumes "0 \<le> start" and "start < int (length t)" and "0 \<le> sz"
  shows "chunk_loop sz ov t start chunks
           = chunk_loop sz ov t (window_end sz t start - ov)
               (chunks @ [strip (py_slice t start (window_end sz t start))])"
proof -
  define lp where "lp = rfind (py_slice t start (start + sz)) CHR ''.''"
  have "py_slice (py_slice t start (start + sz)) 0 (lp + 1) = py_slice t start (start + lp + 1)"
    if "lp \<noteq> - 1"
  proof -
    have "CHR ''.'' \<in> set (py_slice t start (start + sz))"
      using that rfind_absent unfolding lp_def by metis
    then have l0: "0 \<le> lp"
      unfolding lp_def by (rule rfind_present)
    have "lp < int (length (py_slice t start (start + sz)))"
      unfolding lp_def by (rule rfind_upper)
    also have "\<dots> \<le> sz"
      using assms by (intro length_py_slice_le)
    finally have l1: "lp + 1 \<le> sz"
      by simp
    have a: "py_slice t start (start + sz) = take (nat sz) (drop (nat start) t)"
      using assms by (simp add: py_slice_nonneg)
    have b: "py_slice t start (start + lp + 1) = take (nat (lp + 1)) (drop (nat start) t)"
      using assms l0 by (simp add: py_slice_nonneg)
    have "py_slice (take (nat sz) (drop (nat start) t)) 0 (lp + 1)
            = take (nat (lp + 1)) (take (nat sz) (drop (nat start) t))"
      using l0 by (simp add: py_slice_nonneg)
    also have "\<dots> = take (nat (lp + 1)) (drop (nat start) t)"
      using l0 l1 by (simp add: min_def)
    finally show ?thesis
      by (simp add: a b)
  qed
  then show ?thesis
    using assms(2)
    by (subst chunk_loop.simps) (auto simp: Let_def window_end_def lp_def)
qed

lemma window_end_bounds:
  assumes "0 \<le> start" and "start < int (length t)" and "0 \<le> ov" and "ov < sz"
    and "cuts_advance sz ov t"
  shows "start + ov < window_end sz t start"
    and "window_end sz t start \<le> start + sz"
proof -
  define lp where "lp = rfind (py_slice t start (start + sz)) CHR ''.''"
  have up: "lp + 1 \<le> sz"
  proof -
    have "lp < int (length (py_slice t start (start + sz)))"
      unfolding lp_def by (rule rfind_upper)
    also have "\<dots> \<le> sz"
      using assms by (intro length_py_slice_le) simp
    finally show ?thesis by simp
  qed
  have low: "ov \<le> lp" if "start + sz < int (length t)" "lp \<noteq> - 1"
  proof -
    have "\<forall>s \<in> set [0..<length t]. int s + sz < int (length t) \<longrightarrow>
            rfind (py_slice t (int s) (int s + sz)) CHR ''.'' \<noteq> - 1 \<longrightarrow>
            ov \<le> rfind (py_slice t (int s) (int s + sz)) CHR ''.''"
      using assms(5) by (simp add: cuts_advance_def Let_def)
    moreover have "nat start \<in> set [0..<length t]"
      using assms by simp
    ultimately have "int (nat start) + sz < int (length t) \<longrightarrow>
            rfind (py_slice t (int (nat start)) (int (nat start) + sz)) CHR ''.'' \<noteq> - 1 \<longrightarrow>
            ov \<le> rfind (py_slice t (int (nat start)) (int (nat start) + sz)) CHR ''.''"
      by blast
    with that assms(1) show ?thesis
      by (simp add: lp_def)
  qed
  show "start + ov < window_end sz t start"
    using low assms by (auto simp: window_end_def Let_def lp_def)
  show "window_end sz t start \<le> start + sz"
    using up by (auto simp: window_end_def Let_def lp_def)
qed

lemma set_py_slice: "set (py_slice t a b) \<subseteq> set t"
proof -
  have "set (take k (drop j t)) \<subseteq> set t" for k j
    by (meson order_trans set_drop_subset set_take_subset)
  then show ?thesis
    by (simp add: py_slice_def Let_def)
qed

lemma window_end_no_period:
  assumes "CHR ''.'' \<notin> set t"
  shows "window_end sz t start = start + sz"
proof -
  have "CHR ''.'' \<notin> set (py_slice t start (start + sz))"
    using assms set_py_slice by blast
  then show ?thesis
    by (simp add: window_end_def rfind_absent)
qed

text \<open>Two cases in which every cut advances: no sentence terminator, and no overlap.\<close>

lemma cuts_advance_no_period:
  assumes "CHR ''.'' \<notin> set t"
  shows "cuts_advance sz ov t"
proof -
  have "rfind (py_slice t a b) CHR ''.'' = - 1" for a b
    using assms set_py_slice by (intro rfind_absent) blast
  then show ?thesis
    by (simp add: cuts_advance_def)
qed

lemma cuts_advance_no_overlap: "cuts_advance sz 0 t"
proof -
  have "0 \<le> rfind s c" if "rfind s c \<noteq> - 1" for s c
    using that rfind_absent rfind_present by metis
  then show ?thesis
    by (simp add: cuts_advance_def Let_def)
qed

subsection \<open>The invariant\<close>

lemma overlap_chain_snoc:
  "overlap_chain ov (ws @ [w]) \<longleftrightarrow>
     overlap_chain ov ws \<and> (ws \<noteq> [] \<longrightarrow> suffix (take ov w) (last ws))"
  by (induction ov ws rule: overlap_chain.induct) auto

lemma remove_overlaps_snoc:
  "ws \<noteq> [] \<Longrightarrow> remove_overlaps ov (ws @ [w]) = remove_overlaps ov ws @ drop ov w"
  by (cases ws) auto

lemma take_between:
  "a \<le> b \<Longrightarrow> take b xs = take a xs @ take (b - a) (drop a xs)"
  by (metis le_add_diff_inverse take_add)

lemma covers_step:
  assumes c: "covers ov t start ws" and lt: "start < length t" and adv: "start + ov < e"
  shows "covers ov t (e - ov) (ws @ [take (e - start) (drop start t)])"
proof -
  define w where "w = take (e - start) (drop start t)"
  have tk: "take ov w = take ov (drop start t)"
    using adv by (simp add: w_def min_def)
  have chain: "overlap_chain ov (ws @ [w])"
    using c by (auto simp: overlap_chain_snoc covers_def tk)
  have piece: "sublist w t"
    unfolding w_def by (meson sublist_drop sublist_order.order_trans sublist_take)
  have long: "ov < length w \<or> suffix w t"
  proof (cases "e \<le> length t")
    case True
    then have "length w = e - start"
      using lt by (simp add: w_def)
    with adv have "ov < length w"
      by linarith
    then show ?thesis by simp
  next
    case False
    then have "w = drop start t"
      by (simp add: w_def)
    then show ?thesis
      by (simp add: suffix_drop)
  qed
  have rec: "remove_overlaps ov (ws @ [w]) = take (e - ov + ov) t"
  proof (cases "ws = []")
    case True
    with c have "start = 0"
      by (simp add: covers_def)
    with True adv show ?thesis
      by (simp add: w_def)
  next
    case False
    with c have "remove_overlaps ov ws = take (start + ov) t"
      by (simp add: covers_def)
    moreover have "drop ov w = take (e - (start + ov)) (drop (start + ov) t)"
      by (simp add: w_def drop_take add.commute)
    ultimately show ?thesis
      using False adv take_between [of "start + ov" e t]
      by (simp add: remove_overlaps_snoc)
  qed
  have "w = take (e - ov - start) (drop start t) @ take ov (drop (e - ov) t)"
  proof -
    have "take (e - start) (drop start t)
            = take (e - ov - start) (drop start t)
              @ take (e - start - (e - ov - start)) (drop (e - ov - start) (drop start t))"
      using adv by (intro take_between) simp
    moreover have "e - start - (e - ov - start) = ov"
      using adv by simp
    moreover have "e - ov - start + start = e - ov"
      using adv by simp
    ultimately show ?thesis
      by (simp add: w_def)
  qed
  then have suf: "suffix (take ov (drop (e - ov) t)) w"
    by (metis suffixI)
  from chain piece long rec suf c show ?thesis
    unfolding w_def [symmetric] by (auto simp: covers_def)
qed

lemma covers_done:
  assumes "covers ov t start ws" and "length t \<le> start"
  shows "remove_overlaps ov ws = t"
  using assms by (auto simp: covers_def split: if_splits)

subsection \<open>The whole loop\<close>

lemma chunk_loop_windows:
  assumes cfg: "0 \<le> ov" "ov < sz" and pc: "cuts_advance sz ov t"
  shows "0 \<le> start \<Longrightarrow> covers (nat ov) t (nat start) ws \<Longrightarrow>
         \<exists>ws'. chunk_loop sz ov t start (map strip ws) = Some (map strip (ws @ ws'))
             \<and> remove_overlaps (nat ov) (ws @ ws') = t
             \<and> overlap_chain (nat ov) (ws @ ws')
             \<and> (\<forall>w \<in> set (ws @ ws'). sublist w t \<and> (nat ov < length w \<or> suffix w t))
             \<and> int (length ws') \<le> max 0 (int (length t) - start)"
proof (induction "nat (int (length t) - start)" arbitrary: start ws rule: less_induct)
  case less
  show ?case
  proof (cases "start < int (length t)")
    case False
    then have "chunk_loop sz ov t start (map strip ws) = Some (map strip ws)"
      by (intro chunk_loop_exit) simp
    moreover have "remove_overlaps (nat ov) ws = t"
      using less.prems False by (intro covers_done [of _ _ "nat start"]) simp_all
    ultimately show ?thesis
      using less.prems(2) by (intro exI [of _ "[]"]) (simp add: covers_def)
  next
    case True
    define e where "e = window_end sz t start"
    define w where "w = take (nat e - nat start) (drop (nat start) t)"
    have b: "start + ov < e" "e \<le> start + sz"
      using window_end_bounds [OF less.prems(1) True cfg pc] by (simp_all add: e_def)
    have sl: "py_slice t start e = w"
      using less.prems(1) b cfg by (simp add: py_slice_nonneg w_def nat_diff_distrib)
    have step: "chunk_loop sz ov t start (map strip ws)
                  = chunk_loop sz ov t (e - ov) (map strip (ws @ [w]))"
      using chunk_loop_step [OF less.prems(1) True, of sz ov "map strip ws"] cfg
      by (simp add: e_def [symmetric] sl)
    have "covers (nat ov) t (nat e - nat ov) (ws @ [w])"
      unfolding w_def using less.prems True b cfg
      by (intro covers_step) simp_all
    then have cov: "covers (nat ov) t (nat (e - ov)) (ws @ [w])"
      using cfg b less.prems(1) by (simp add: nat_diff_distrib)
    have m: "nat (int (length t) - (e - ov)) < nat (int (length t) - start)"
      using True b by simp
    have "0 \<le> e - ov"
      using b less.prems(1) cfg by simp
    from less.hyps [OF m this cov] obtain ws' where
      r: "chunk_loop sz ov t (e - ov) (map strip (ws @ [w])) = Some (map strip ((ws @ [w]) @ ws'))"
         "remove_overlaps (nat ov) ((ws @ [w]) @ ws') = t"
         "overlap_chain (nat ov) ((ws @ [w]) @ ws')"
         "\<forall>x \<in> set ((ws @ [w]) @ ws'). sublist x t \<and> (nat ov < length x \<or> suffix x t)"
         "int (length ws') \<le> max 0 (int (length t) - (e - ov))"
      by blast
    have "int (length (w # ws')) \<le> max 0 (int (length t) - start)"
      using r(5) True b by simp
    with step r(1-4) show ?thesis
      by (intro exI [of _ "w # ws'"]) simp
  qed
qed

lemma ceiling_step:
  fixes x d :: int
  assumes "0 < x" and "0 < d"
  shows "1 + max 0 \<lceil>real_of_int (x - d) / real_of_int d\<rceil> = max 0 \<lceil>real_of_int x / real_of_int d\<rceil>"
proof -
  have "real_of_int (x - d) / real_of_int d = real_of_int x / real_of_int d - 1"
    using assms by (simp add: field_simps)
  then have a: "\<lceil>real_of_int (x - d) / real_of_int d\<rceil> = \<lceil>real_of_int x / real_of_int d\<rceil> - 1"
    by simp
  have "0 < real_of_int x / real_of_int d"
    using assms by simp
  then have "0 < \<lceil>real_of_int x / real_of_int d\<rceil>"
    by (simp add: ceiling_less_iff)
  with a show ?thesis by simp
qed

text \<open>Without a sentence terminator every window has the full size, and the windows are counted.\<close>

lemma chunk_loop_count:
  assumes cfg: "0 \<le> ov" "ov < sz" and np: "CHR ''.'' \<notin> set t"
  shows "0 \<le> start \<Longrightarrow>
         \<exists>cs. chunk_loop sz ov t start chunks = Some (chunks @ cs)
            \<and> int (length cs) = max 0 \<lceil>real_of_int (int (length t) - start) / real_of_int (sz - ov)\<rceil>"
proof (induction "nat (int (length t) - start)" arbitrary: start chunks rule: less_induct)
  case less
  show ?case
  proof (cases "start < int (length t)")
    case False
    then have "chunk_loop sz ov t start chunks = Some chunks"
      by (intro chunk_loop_exit) simp
    moreover have "real_of_int (int (length t) - start) / real_of_int (sz - ov) \<le> 0"
      using False cfg by (simp add: divide_nonpos_pos)
    then have "\<lceil>real_of_int (int (length t) - start) / real_of_int (sz - ov)\<rceil> \<le> 0"
      by (simp add: ceiling_le_iff)
    ultimately show ?thesis by simp
  next
    case True
    define c where "c = strip (py_slice t start (start + sz))"
    have step: "chunk_loop sz ov t start chunks = chunk_loop sz ov t (start + sz - ov) (chunks @ [c])"
      using chunk_loop_step [OF less.prems True, of sz ov chunks] cfg
      by (simp add: window_end_no_period [OF np] c_def)
    have m: "nat (int (length t) - (start + sz - ov)) < nat (int (length t) - start)"
      using True cfg by simp
    have "0 \<le> start + sz - ov"
      using less.prems cfg by simp
    from less.hyps [OF m this, of "chunks @ [c]"] obtain cs where
      r: "chunk_loop sz ov t (start + sz - ov) (chunks @ [c]) = Some ((chunks @ [c]) @ cs)"
         "int (length cs) = max 0 \<lceil>real_of_int (int (length t) - (start + sz - ov)) / real_of_int (sz - ov)\<rceil>"
      by blast
    have "int (length t) - (start + sz - ov) = (int (length t) - start) - (sz - ov)"
      by simp
    with r(2) have "1 + int (length cs) = max 0 \<lceil>real_of_int (int (length t) - start) / real_of_int (sz - ov)\<rceil>"
      using ceiling_step [of "int (length t) - start" "sz - ov"] True cfg by simp
    with step r(1) show ?thesis
      by (intro exI [of _ "c # cs"]) simp
  qed
qed

lemma strip_no_space:
  assumes "\<forall>c \<in> set w. \<not> isspace c"
  shows "strip w = w"
proof -
  have keep: "dropWhile isspace xs = xs" if "\<forall>c \<in> set xs. \<not> isspace c" for xs
    using that by (cases xs) auto
  have "dropWhile isspace w = w"
    using assms by (rule keep)
  moreover have "dropWhile isspace (rev w) = rev w"
    using assms by (intro keep) simp
  ultimately show ?thesis
    by (simp add: strip_def)
qed

text \<open>
  A start from which the loop does not move: the window is cut back to a terminator
  at offset \<open>ov - 1\<close>, so the next start is the same start.
\<close>

lemma chunk_loop_stuck:
  assumes "start < int (length t)" and "start + sz < int (length t)"
    and "rfind (py_slice t start (start + sz)) CHR ''.'' = ov - 1" and "0 < ov"
  shows "chunk_loop sz ov t start chunks = None"
proof (cases "chunk_loop sz ov t start chunks")
  case None
  then show ?thesis .
next
  case (Some y)
  have "\<not> (sz = sz \<and> ov = ov \<and> t = t \<and> start = start)"
  proof (rule chunk_loop.raw_induct
      [where P = "\<lambda>sz' ov' t' start' chunks' y'. \<not> (sz' = sz \<and> ov' = ov \<and> t' = t \<and> start' = start)",
       OF _ Some], goal_cases)
    case (1 loop sz' ov' t' start' chunks' y')
    show ?case
    proof
      assume h: "sz' = sz \<and> ov' = ov \<and> t' = t \<and> start' = start"
      with 1(2) assms obtain cs where "loop sz ov t start cs = Some y'"
        by (auto simp: Let_def)
      with 1(1) show False
        by blast
    qed
  qed
  then show ?thesis by simp
qed

lemma chunk_text_never_returns:
  "chunk_text \<lparr>chunk_size = 4, chunk_overlap = 2\<rparr> ''a.bbbb'' = None"
proof -
  have n: "normalized ''a.bbbb'' = ''a.bbbb''"
    by code_simp
  have r: "rfind (py_slice ''a.bbbb'' 0 (0 + 4)) CHR ''.'' = 2 - 1"
    by code_simp
  have "chunk_loop 4 2 ''a.bbbb'' 0 [] = None"
    by (rule chunk_loop_stuck [OF _ _ r]) simp_all
  then show ?thesis
    by (simp add: chunk_text_def n)
qed

text \<open>The same with the default configuration: size 1000, overlap 200.\<close>

lemma chunk_text_default_never_returns:
  "chunk_text PDFProcessor_init long_text = None"
proof -
  have n: "normalized long_text = long_text"
    unfolding long_text_def by code_simp
  have l: "int (length long_text) = 1001"
    by (simp add: long_text_def)
  have r: "rfind (py_slice long_text 0 (0 + 1000)) CHR ''.'' = 200 - 1"
    unfolding long_text_def by code_simp
  have "chunk_loop 1000 200 long_text 0 [] = None"
    by (rule chunk_loop_stuck [OF _ _ r]) (simp_all add: l)
  then show ?thesis
    by (simp add: chunk_text_def n PDFProcessor_init_def)
qed

subsection \<open>Coverage and overlap\<close>

theorem chunk_text_strips_boundary_whitespace:
  "chunk_text \<lparr>chunk_size = 4, chunk_overlap = 1\<rparr> ''abc defg'' = Some [''abc'', ''def'', ''fg'']
   \<and> normalized ''abc defg'' = ''abc defg''
   \<and> remove_overlaps 1 [''abc'', ''def'', ''fg''] = ''abcefg''
   \<and> \<not> overlap_chain 1 [''abc'', ''def'', ''fg'']"
  by code_simp

text \<open>
  C3, as the code has it. Let \<open>0 \<le> chunk_overlap < chunk_size\<close>, and let every
  window that is cut back to a sentence terminator keep more than \<open>chunk_overlap\<close>
  characters. Then the operation returns, and its chunks are the stripped forms of
  windows \<open>ws\<close> of the normalised text: each window is a contiguous piece of the
  text; the first \<open>chunk_overlap\<close> characters of each window after the first are the
  last characters of the window before it; each window has more than
  \<open>chunk_overlap\<close> characters or runs to the end of the text; and the windows with
  the overlaps removed concatenate to the normalised text. When the normalised text
  has no whitespace, the chunks are the windows.
\<close>

theorem chunk_text_windows:
  assumes "0 \<le> chunk_overlap self" and "chunk_overlap self < chunk_size self"
    and "cuts_advance (chunk_size self) (chunk_overlap self) (normalized s)"
  shows "\<exists>ws. chunk_text self s = Some (map strip ws)
            \<and> remove_overlaps (nat (chunk_overlap self)) ws = normalized s
            \<and> overlap_chain (nat (chunk_overlap self)) ws
            \<and> (\<forall>w \<in> set ws. sublist w (normalized s)
                   \<and> (nat (chunk_overlap self) < length w \<or> suffix w (normalized s)))
            \<and> ((\<forall>c \<in> set (normalized s). \<not> isspace c) \<longrightarrow> map strip ws = ws)"
proof -
  have "covers (nat (chunk_overlap self)) (normalized s) (nat 0) []"
    by (simp add: covers_def)
  from chunk_loop_windows [OF assms _ this] obtain ws where
    w: "chunk_text self s = Some (map strip ws)"
       "remove_overlaps (nat (chunk_overlap self)) ws = normalized s"
       "overlap_chain (nat (chunk_overlap self)) ws"
       "\<forall>w \<in> set ws. sublist w (normalized s)
           \<and> (nat (chunk_overlap self) < length w \<or> suffix w (normalized s))"
    by (auto simp: chunk_text_def)
  have "map strip ws = ws" if ns: "\<forall>c \<in> set (normalized s). \<not> isspace c"
  proof -
    have "strip x = x" if "x \<in> set ws" for x
    proof -
      from w(4) that have "set x \<subseteq> set (normalized s)"
        by (intro set_mono_sublist) blast
      with ns show ?thesis
        by (intro strip_no_space) blast
    qed
    then show ?thesis
      by (simp add: map_idI)
  qed
  with w show ?thesis
    by blast
qed

theorem chunk_text_windows_witness:
  "0 \<le> chunk_overlap \<lparr>chunk_size = 8, chunk_overlap = 2\<rparr>
   \<and> chunk_overlap \<lparr>chunk_size = 8, chunk_overlap = 2\<rparr> < chunk_size \<lparr>chunk_size = 8, chunk_overlap = 2\<rparr>
   \<and> cuts_advance (chunk_size \<lparr>chunk_size = 8, chunk_overlap = 2\<rparr>)
        (chunk_overlap \<lparr>chunk_size = 8, chunk_overlap = 2\<rparr>) (normalized ''One two three four'')
   \<and> (\<exists>ws. chunk_text \<lparr>chunk_size = 8, chunk_overlap = 2\<rparr> ''One two three four'' = Some (map strip ws)
          \<and> remove_overlaps (nat (chunk_overlap \<lparr>chunk_size = 8, chunk_overlap = 2\<rparr>)) ws
              = normalized ''One two three four''
          \<and> overlap_chain (nat (chunk_overlap \<lparr>chunk_size = 8, chunk_overlap = 2\<rparr>)) ws)
   \<and> chunk_text \<lparr>chunk_size = 8, chunk_overlap = 2\<rparr> ''One two three four''
       = Some [''One two'', ''o three'', ''e four'']"
proof -
  have h: "0 \<le> chunk_overlap \<lparr>chunk_size = 8, chunk_overlap = 2\<rparr>"
    "chunk_overlap \<lparr>chunk_size = 8, chunk_overlap = 2\<rparr> < chunk_size \<lparr>chunk_size = 8, chunk_overlap = 2\<rparr>"
    by simp_all
  have p: "cuts_advance (chunk_size \<lparr>chunk_size = 8, chunk_overlap = 2\<rparr>)
        (chunk_overlap \<lparr>chunk_size = 8, chunk_overlap = 2\<rparr>) (normalized ''One two three four'')"
    by code_simp
  have v: "chunk_text \<lparr>chunk_size = 8, chunk_overlap = 2\<rparr> ''One two three four''
       = Some [''One two'', ''o three'', ''e four'']"
    by code_simp
  from chunk_text_windows [OF h p] h p v show ?thesis
    by blast
qed

subsection \<open>Termination and the number of iterations\<close>

text \<open>Each iteration appends one chunk, so the chunks count the iterations.\<close>

theorem chunk_text_more_iterations:
  "chunk_text \<lparr>chunk_size = 4, chunk_overlap = 0\<rparr> ''aa.aa.aa.aa.aa''
     = Some [''aa.'', ''aa.'', ''aa.'', ''aa.'', ''aa'']
   \<and> \<lceil>real (length (normalized ''aa.aa.aa.aa.aa''))
        / real_of_int (chunk_size \<lparr>chunk_size = 4, chunk_overlap = 0\<rparr>
                        - chunk_overlap \<lparr>chunk_size = 4, chunk_overlap = 0\<rparr>)\<rceil> = 4"
  by code_simp

text \<open>
  C4, as the code has it. Let \<open>0 \<le> chunk_overlap < chunk_size\<close>, and let every
  window that is cut back to a sentence terminator keep more than \<open>chunk_overlap\<close>
  characters. Then the operation returns, after at most as many iterations as the
  normalised text has characters; and when the normalised text has no sentence
  terminator, after exactly \<open>\<lceil>len / (chunk_size - chunk_overlap)\<rceil>\<close> iterations.
\<close>

theorem chunk_text_terminates:
  assumes "0 \<le> chunk_overlap self" and "chunk_overlap self < chunk_size self"
    and "cuts_advance (chunk_size self) (chunk_overlap self) (normalized s)"
  shows "\<exists>chunks. chunk_text self s = Some chunks
            \<and> length chunks \<le> length (normalized s)
            \<and> (CHR ''.'' \<notin> set (normalized s) \<longrightarrow>
                 int (length chunks)
                   = \<lceil>real (length (normalized s)) / real_of_int (chunk_size self - chunk_overlap self)\<rceil>)"
proof -
  have "covers (nat (chunk_overlap self)) (normalized s) (nat 0) []"
    by (simp add: covers_def)
  from chunk_loop_windows [OF assms _ this] obtain ws where
    w: "chunk_text self s = Some (map strip ws)" "length ws \<le> length (normalized s)"
    by (auto simp: chunk_text_def)
  have "int (length (map strip ws))
          = \<lceil>real (length (normalized s)) / real_of_int (chunk_size self - chunk_overlap self)\<rceil>"
    if "CHR ''.'' \<notin> set (normalized s)"
  proof -
    from chunk_loop_count [OF assms(1,2) that, of 0 "[]"] w(1) obtain cs where
      "map strip ws = cs"
      "int (length cs) = max 0 \<lceil>real_of_int (int (length (normalized s))) / real_of_int (chunk_size self - chunk_overlap self)\<rceil>"
      by (auto simp: chunk_text_def)
    moreover have "0 \<le> real_of_int (int (length (normalized s))) / real_of_int (chunk_size self - chunk_overlap self)"
      using assms by simp
    then have "0 \<le> \<lceil>real_of_int (int (length (normalized s))) / real_of_int (chunk_size self - chunk_overlap self)\<rceil>"
      by (simp add: zero_le_ceiling)
    ultimately show ?thesis by simp
  qed
  with w show ?thesis by auto
qed

theorem chunk_text_terminates_witness:
  "0 \<le> chunk_overlap \<lparr>chunk_size = 12, chunk_overlap = 2\<rparr>
   \<and> chunk_overlap \<lparr>chunk_size = 12, chunk_overlap = 2\<rparr> < chunk_size \<lparr>chunk_size = 12, chunk_overlap = 2\<rparr>
   \<and> cuts_advance (chunk_size \<lparr>chunk_size = 12, chunk_overlap = 2\<rparr>)
        (chunk_overlap \<lparr>chunk_size = 12, chunk_overlap = 2\<rparr>) (normalized ''Hi there. Bye now. Ok.'')
   \<and> (\<exists>chunks. chunk_text \<lparr>chunk_size = 12, chunk_overlap = 2\<rparr> ''Hi there. Bye now. Ok.'' = Some chunks
          \<and> length chunks \<le> length (normalized ''Hi there. Bye now. Ok.''))
   \<and> chunk_text \<lparr>chunk_size = 12, chunk_overlap = 2\<rparr> ''Hi there. Bye now. Ok.''
       = Some [''Hi there.'', ''e. Bye now.'', ''w. Ok.'']
   \<and> 0 \<le> chunk_overlap \<lparr>chunk_size = 8, chunk_overlap = 2\<rparr>
   \<and> chunk_overlap \<lparr>chunk_size = 8, chunk_overlap = 2\<rparr> < chunk_size \<lparr>chunk_size = 8, chunk_overlap = 2\<rparr>
   \<and> cuts_advance (chunk_size \<lparr>chunk_size = 8, chunk_overlap = 2\<rparr>)
        (chunk_overlap \<lparr>chunk_size = 8, chunk_overlap = 2\<rparr>) (normalized ''One two three four'')
   \<and> CHR ''.'' \<notin> set (normalized ''One two three four'')
   \<and> (\<exists>chunks. chunk_text \<lparr>chunk_size = 8, chunk_overlap = 2\<rparr> ''One two three four'' = Some chunks
          \<and> int (length chunks)
              = \<lceil>real (length (normalized ''One two three four''))
                  / real_of_int (chunk_size \<lparr>chunk_size = 8, chunk_overlap = 2\<rparr>
                                  - chunk_overlap \<lparr>chunk_size = 8, chunk_overlap = 2\<rparr>)\<rceil>)
   \<and> \<lceil>real (length (normalized ''One two three four''))
         / real_of_int (chunk_size \<lparr>chunk_size = 8, chunk_overlap = 2\<rparr>
                         - chunk_overlap \<lparr>chunk_size = 8, chunk_overlap = 2\<rparr>)\<rceil> = 3"
proof -
  have h: "0 \<le> chunk_overlap \<lparr>chunk_size = 12, chunk_overlap = 2\<rparr>"
    "chunk_overlap \<lparr>chunk_size = 12, chunk_overlap = 2\<rparr> < chunk_size \<lparr>chunk_size = 12, chunk_overlap = 2\<rparr>"
    by simp_all
  have p: "cuts_advance (chunk_size \<lparr>chunk_size = 12, chunk_overlap = 2\<rparr>)
        (chunk_overlap \<lparr>chunk_size = 12, chunk_overlap = 2\<rparr>) (normalized ''Hi there. Bye now. Ok.'')"
    by code_simp
  have v: "chunk_text \<lparr>chunk_size = 12, chunk_overlap = 2\<rparr> ''Hi there. Bye now. Ok.''
       = Some [''Hi there.'', ''e. Bye now.'', ''w. Ok.'']"
    by code_simp
  have h': "0 \<le> chunk_overlap \<lparr>chunk_size = 8, chunk_overlap = 2\<rparr>"
    "chunk_overlap \<lparr>chunk_size = 8, chunk_overlap = 2\<rparr> < chunk_size \<lparr>chunk_size = 8, chunk_overlap = 2\<rparr>"
    by simp_all
  have p': "cuts_advance (chunk_size \<lparr>chunk_size = 8, chunk_overlap = 2\<rparr>)
        (chunk_overlap \<lparr>chunk_size = 8, chunk_overlap = 2\<rparr>) (normalized ''One two three four'')"
    by code_simp
  have np: "CHR ''.'' \<notin> set (normalized ''One two three four'')"
    by code_simp
  have c: "\<lceil>real (length (normalized ''One two three four''))
         / real_of_int (chunk_size \<lparr>chunk_size = 8, chunk_overlap = 2\<rparr>
                         - chunk_overlap \<lparr>chunk_size = 8, chunk_overlap = 2\<rparr>)\<rceil> = 3"
    by code_simp
  from chunk_text_terminates [OF h p] chunk_text_terminates [OF h' p'] h p v h' p' np c
  show ?thesis
    by blast
qed

end
